theory Spec2Isabelle
  imports
    Main
    "HOL-Library.Multiset"
    "HOL-Library.Sublist"
    "HOL-Library.Char_ord"
    "HOL-Library.List_Lexorder"
begin

section \<open>Strings as Python handles them\<close>

text \<open>
  Constraint names, file contents and messages are Python \<open>str\<close> values. They are
  modelled as \<^typ>\<open>string\<close>; a \<^typ>\<open>char\<close> stands for a code point below 256.
  \<open>list.sort()\<close> on strings compares code point by code point, a proper prefix being
  smaller: this is the lexicographic order on \<^typ>\<open>char list\<close> over the order on
  \<^typ>\<open>char\<close> by code.
\<close>

definition LF :: char where
  "LF = CHR 0x0A"

definition CR :: char where
  "CR = CHR 0x0D"

text \<open>
  \<open>str.rstrip()\<close> with no argument removes trailing white space, that is the characters
  for which \<open>str.isspace\<close> holds: below 256 these are U+0009..U+000D, U+001C..U+0020,
  U+0085 and U+00A0.
\<close>

definition isspace :: "char \<Rightarrow> bool" where
  "isspace c \<longleftrightarrow>
     (let n = (of_char c :: nat)
      in (9 \<le> n \<and> n \<le> 13) \<or> (28 \<le> n \<and> n \<le> 32) \<or> n = 133 \<or> n = 160)"

definition rstrip :: "string \<Rightarrow> string" where
  "rstrip s = rev (dropWhile isspace (rev s))"

text \<open>\<open>'\n'.join(names)\<close>: the names with one line feed between neighbours.\<close>

fun newline_join :: "string list \<Rightarrow> string" where
  "newline_join [] = []"
| "newline_join [x] = x"
| "newline_join (x # y # ys) = x @ LF # newline_join (y # ys)"

text \<open>
  Iterating a file opened with \<open>open(path, 'r')\<close> yields its lines. The file is in
  universal-newlines mode: a line ends at \<open>\n\<close>, at \<open>\r\n\<close> or at a lone \<open>\r\<close>, each
  handed over as \<open>\n\<close> at the end of the line; text after the last terminator is a
  final line without one, and an empty file has no line. \<open>file_lines acc s\<close> reads
  \<open>s\<close> with \<open>acc\<close> the part of the current line already seen.
\<close>

fun file_lines :: "string \<Rightarrow> string \<Rightarrow> string list" where
  "file_lines acc [] = (if acc = [] then [] else [acc])"
| "file_lines acc [c] =
     (if c = CR \<or> c = LF then [acc @ [LF]] else [acc @ [c]])"
| "file_lines acc (c # d # cs) =
     (if c = CR \<and> d = LF then (acc @ [LF]) # file_lines [] cs
      else if c = CR \<or> c = LF then (acc @ [LF]) # file_lines [] (d # cs)
      else file_lines (acc @ [c]) (d # cs))"

text \<open>
  \<open>s.split(sep)\<close> for a non-empty separator: the pieces of \<open>s\<close> between the occurrences
  of \<open>sep\<close> found scanning from the left, an occurrence being skipped whole once found.
  \<open>split_from sep acc s\<close> has \<open>acc\<close> as the piece collected so far.
\<close>

function split_from :: "string \<Rightarrow> string \<Rightarrow> string \<Rightarrow> string list" where
  "split_from sep acc [] = [acc]"
| "split_from sep acc (c # cs) =
     (if sep \<noteq> [] \<and> prefix sep (c # cs)
      then acc # split_from sep [] (drop (length sep) (c # cs))
      else split_from sep (acc @ [c]) cs)"
  by pat_completeness auto
termination
  by (relation "measure (\<lambda>(sep, acc, s). length s)") auto

text \<open>
  What \<open>download_policy_file\<close> makes of the downloaded file:
  \<open>[line.rstrip() for line in policy_file]\<close>.
\<close>

definition read_policy_file :: "string \<Rightarrow> string list" where
  "read_policy_file content = map rstrip (file_lines [] content)"

text \<open>\<open>policy.split('constraints/')[-1]\<close>, the part of the name that is posted.\<close>

definition policy_suffix :: "string \<Rightarrow> string" where
  "policy_suffix policy = last (split_from ''constraints/'' [] policy)"


text \<open>The text sent to the chat webhook and the text posted as a status update.\<close>

definition slack_text :: "string \<Rightarrow> string" where
  "slack_text policy = ''New Organization Policy Detected: '' @ policy"

definition tweet_text :: "string \<Rightarrow> string \<Rightarrow> string" where
  "tweet_text commit_url policy =
     ''New Organization Policy Detected: '' @ policy_suffix policy @ '' '' @ commit_url"

section \<open>The external systems\<close>

text \<open>
  The cloud policy API, the bucket, the secret store, the source-control API, the chat
  webhook and the status API are the environment of a run. The listing may differ from
  one query to the next, so its reply depends on how many queries were made before;
  the other replies are fixed during a run.
\<close>

datatype api_reply =
    Response "string list option"
  | RequestFailed

datatype secret_reply =
    Payload string
  | FailedPrecondition
  | OtherFailure

datatype http_reply =
    Status nat
  | TransportError

text \<open>
  \<open>Response (Some names)\<close> is a reply whose \<open>constraints\<close> entry lists objects with these
  names, \<open>Response None\<close> a reply without that entry, \<open>RequestFailed\<close> an exception from
  \<open>request.execute()\<close>. \<open>OtherFailure\<close> is any exception of the secret client other than
  \<open>FailedPrecondition\<close>, a payload that is not UTF-8 included.
  \<open>slot\<close> ranks the names: a Python set is iterated in an order fixed by the hashes of
  its elements, and every order of a given set is the order of some ranking.
\<close>

record env =
  listing :: "nat \<Rightarrow> api_reply"
  list_blobs_ok :: bool
  download_ok :: bool
  upload_ok :: bool
  secret_store :: "string \<Rightarrow> secret_reply"
  slot :: "string \<Rightarrow> nat"
  repo_ok :: bool
  branch_ok :: bool
  ref_ok :: bool
  contents_ok :: bool
  update_file :: "string option"
  pull_ok :: bool
  oauth_accepts :: "string option list \<Rightarrow> bool"
  slack_reply :: "string \<Rightarrow> string \<Rightarrow> http_reply"
  twitter_accepts :: "string \<Rightarrow> bool"
  s_slack_name :: string
  s_token_name :: string
  consumer_key_name :: string
  consumer_key_secret_name :: string
  access_token_name :: string
  access_token_secret_name :: string

text \<open>
  What a run does to the outside, in order. An event is the call; whether it succeeded
  shows in what follows it. \<open>UpdateFile\<close> carries the listing reply whose JSON dump is
  the new file content, \<open>HttpPost\<close> the webhook URL and the value of the \<open>text\<close> entry of
  its JSON body.
\<close>

datatype event =
    Print string
  | PrintExn
  | ListConstraints
  | ListBlobs
  | Download
  | WriteLocal string
  | Upload string
  | AccessSecret string
  | GetRepo
  | GetBranch
  | CreateRef
  | GetContents
  | UpdateFile "string list option"
  | CreatePull
  | HttpPost "string option" string
  | Tweet string

record state =
  blob :: "string option"
  queries :: nat
  trace :: "event list"

text \<open>
  A call ends by returning, by \<open>sys.exit(code)\<close> or by an exception nobody catches.
\<close>

datatype abort =
    SysExit nat
  | Uncaught

type_synonym 'a run = "state \<Rightarrow> (abort + 'a) \<times> state"

definition ret :: "'a \<Rightarrow> 'a run" where
  "ret x s = (Inr x, s)"

definition throw :: "abort \<Rightarrow> 'a run" where
  "throw a s = (Inl a, s)"

definition emit :: "event \<Rightarrow> unit run" where
  "emit e s = (Inr (), s\<lparr>trace := trace s @ [e]\<rparr>)"

definition bnd :: "'a run \<Rightarrow> ('a \<Rightarrow> 'b run) \<Rightarrow> 'b run" where
  "bnd m k s = (case m s of (Inl a, s') \<Rightarrow> (Inl a, s') | (Inr x, s') \<Rightarrow> k x s')"

definition start :: "string option \<Rightarrow> state" where
  "start b = \<lparr>blob = b, queries = 0, trace = []\<rparr>"

section \<open>The program\<close>

definition list_org_policies :: "env \<Rightarrow> string list option run" where
  "list_org_policies env s =
     (let s1 = s\<lparr>queries := queries s + 1, trace := trace s @ [ListConstraints]\<rparr>
      in case listing env (queries s) of
           Response r \<Rightarrow> (Inr r, s1)
         | RequestFailed \<Rightarrow> (Inl (SysExit 1), s1\<lparr>trace := trace s1 @ [PrintExn]\<rparr>))"

definition constraint_transform :: "env \<Rightarrow> string list run" where
  "constraint_transform env =
     bnd (list_org_policies env) (\<lambda>org_response.
       case org_response of
         None \<Rightarrow> throw Uncaught
       | Some names \<Rightarrow> ret names)"

definition upload_policy_file :: "env \<Rightarrow> unit run" where
  "upload_policy_file env =
     bnd (constraint_transform env) (\<lambda>new_policies.
     bnd (emit (WriteLocal (newline_join new_policies))) (\<lambda>_.
     bnd (emit (Upload (newline_join new_policies))) (\<lambda>_.
       if upload_ok env
       then (\<lambda>s. bnd (emit (Print ''New Policies Uploaded. Exiting.'')) (\<lambda>_.
                   throw (SysExit 0)) (s\<lparr>blob := Some (newline_join new_policies)\<rparr>))
       else throw Uncaught)))"

definition download_policy_file :: "env \<Rightarrow> string list run" where
  "download_policy_file env =
     bnd (emit Download) (\<lambda>_. \<lambda>s.
       case blob s of
         None \<Rightarrow> throw Uncaught s
       | Some content \<Rightarrow>
           if download_ok env
           then bnd (emit (Print ''Org Policy File Downloaded from GCS Bucket'')) (\<lambda>_.
                  ret (read_policy_file content)) s
           else throw Uncaught s)"

definition fetch_old_policies :: "env \<Rightarrow> string list option run" where
  "fetch_old_policies env =
     bnd (emit ListBlobs) (\<lambda>_. \<lambda>s.
       if \<not> list_blobs_ok env then throw Uncaught s
       else if blob s \<noteq> None
       then bnd (download_policy_file env) (\<lambda>old_policies. ret (Some old_policies)) s
       else bnd (upload_policy_file env) (\<lambda>_. ret None) s)"

definition get_latest_secret :: "env \<Rightarrow> string \<Rightarrow> string option run" where
  "get_latest_secret env secret_name =
     bnd (emit (Print (''Getting '' @ secret_name @ '' secret.''))) (\<lambda>_.
     bnd (emit (AccessSecret secret_name)) (\<lambda>_.
       case secret_store env secret_name of
         Payload d \<Rightarrow> ret (Some (rstrip d))
       | FailedPrecondition \<Rightarrow> bnd (emit PrintExn) (\<lambda>_. ret None)
       | OtherFailure \<Rightarrow> throw Uncaught))"

definition get_twitter_secrets :: "env \<Rightarrow> string option list run" where
  "get_twitter_secrets env =
     bnd (get_latest_secret env (consumer_key_name env)) (\<lambda>k1.
     bnd (get_latest_secret env (consumer_key_secret_name env)) (\<lambda>k2.
     bnd (get_latest_secret env (access_token_name env)) (\<lambda>k3.
     bnd (get_latest_secret env (access_token_secret_name env)) (\<lambda>k4.
       ret [k1, k2, k3, k4]))))"

text \<open>
  \<open>create_twitter_connection\<close> returns the API handle, or nothing when setting up the
  handler raised: that exception is printed and swallowed.
\<close>

definition create_twitter_connection :: "env \<Rightarrow> unit option run" where
  "create_twitter_connection env =
     bnd (get_twitter_secrets env) (\<lambda>creds.
       if oauth_accepts env creds then ret (Some ())
       else bnd (emit PrintExn) (\<lambda>_. ret None))"

text \<open>
  The \<open>for\<close> loop of \<open>post_to_slack\<close>. \<open>requests.request\<close> raises for a URL that is not
  there; any reply with a status code is a normal return.
\<close>

fun slack_loop :: "env \<Rightarrow> string option \<Rightarrow> string list \<Rightarrow> unit run" where
  "slack_loop env url [] = ret ()"
| "slack_loop env url (policy # rest) =
     bnd (emit (HttpPost url (slack_text policy))) (\<lambda>_.
       if (case url of
             None \<Rightarrow> False
           | Some u \<Rightarrow> slack_reply env u (slack_text policy) \<noteq> TransportError)
       then bnd (emit (Print ''Posting to Slack'')) (\<lambda>_. slack_loop env url rest)
       else bnd (emit PrintExn) (\<lambda>_. throw (SysExit 1)))"

definition post_to_slack :: "env \<Rightarrow> string list \<Rightarrow> unit run" where
  "post_to_slack env new_policies =
     bnd (get_latest_secret env (s_slack_name env)) (\<lambda>url.
     bnd (create_twitter_connection env) (\<lambda>tweet.
       slack_loop env url new_policies))"

text \<open>
  One step of \<open>create_pr\<close>: a call inside \<open>try\<close> whose \<open>except\<close> prints a message and
  exits with status 1.
\<close>

definition attempt :: "event \<Rightarrow> bool \<Rightarrow> string \<Rightarrow> unit run" where
  "attempt e ok msg =
     bnd (emit e) (\<lambda>_.
       if ok then ret () else bnd (emit (Print msg)) (\<lambda>_. throw (SysExit 1)))"

definition create_pr :: "env \<Rightarrow> string list option \<Rightarrow> string run" where
  "create_pr env pr_file_content =
     bnd (get_latest_secret env (s_token_name env)) (\<lambda>github_token.
     bnd (attempt GetRepo (repo_ok env)
            ''There was an error reaching the repository.'') (\<lambda>_.
     bnd (attempt GetBranch (branch_ok env)
            ''There was an error reaching the default branch.'') (\<lambda>_.
     bnd (emit (Print ''Creating a new branch.'')) (\<lambda>_.
     bnd (attempt CreateRef (ref_ok env)
            ''There was an error creating our new branch.'') (\<lambda>_.
     bnd (attempt GetContents (contents_ok env)
            ''There was an error fetching the old policy file.'') (\<lambda>_.
     bnd (emit (UpdateFile pr_file_content)) (\<lambda>_.
       case update_file env of
         None \<Rightarrow>
           bnd (emit (Print ''There was an error updating the old policy file.'')) (\<lambda>_.
             throw (SysExit 1))
       | Some result \<Rightarrow>
           bnd (emit (Print ''Creating GitHub Pull Request.'')) (\<lambda>_.
           bnd (attempt CreatePull (pull_ok env)
                  ''There was an error creating the pull request.'') (\<lambda>_.
             ret result)))))))))"

definition create_pr_file_content :: "env \<Rightarrow> string run" where
  "create_pr_file_content env =
     bnd (list_org_policies env) (\<lambda>org_response. create_pr env org_response)"

text \<open>
  The \<open>for\<close> loop of \<open>post_to_twitter\<close>. Without a handle \<open>tweet.update_status\<close> raises
  before anything is sent; the \<open>except\<close> prints and exits with status 1 either way.
\<close>

fun twitter_loop :: "env \<Rightarrow> unit option \<Rightarrow> string \<Rightarrow> string list \<Rightarrow> unit run" where
  "twitter_loop env tweet commit [] = ret ()"
| "twitter_loop env tweet commit (policy # rest) =
     (case tweet of
        None \<Rightarrow> bnd (emit PrintExn) (\<lambda>_. throw (SysExit 1))
      | Some _ \<Rightarrow>
          bnd (emit (Tweet (tweet_text commit policy))) (\<lambda>_.
            if twitter_accepts env (tweet_text commit policy)
            then twitter_loop env tweet commit rest
            else bnd (emit PrintExn) (\<lambda>_. throw (SysExit 1))))"

definition post_to_twitter :: "env \<Rightarrow> string list \<Rightarrow> string \<Rightarrow> unit run" where
  "post_to_twitter env new_policies commit =
     bnd (create_twitter_connection env) (\<lambda>tweet.
       twitter_loop env tweet commit new_policies)"

text \<open>
  \<open>list(set(current) - set(old))\<close>: the names of \<open>current\<close> that are not in \<open>old\<close>, each
  once, in the iteration order of the set.
\<close>

definition set_difference :: "env \<Rightarrow> string list \<Rightarrow> string list \<Rightarrow> string list" where
  "set_difference env current old =
     sort_key (slot env) (remdups (filter (\<lambda>p. p \<notin> set old) current))"

text \<open>
  The \<open>else\<close> branch of \<open>compare_policies\<close> once \<open>new_policies\<close> is computed: the
  pull request, the chat messages, the status updates, the new baseline.
\<close>

definition announce_and_save :: "env \<Rightarrow> string list \<Rightarrow> unit run" where
  "announce_and_save env new_policies =
     bnd (create_pr_file_content env) (\<lambda>github_commit.
     bnd (post_to_slack env new_policies) (\<lambda>_.
     bnd (post_to_twitter env new_policies github_commit) (\<lambda>_.
       upload_policy_file env)))"

definition compare_policies :: "env \<Rightarrow> unit run" where
  "compare_policies env =
     bnd (fetch_old_policies env) (\<lambda>old_policies.
     bnd (constraint_transform env) (\<lambda>current_policies.
       case old_policies of
         None \<Rightarrow> throw Uncaught
       | Some old \<Rightarrow>
           if sort current_policies = sort old
           then emit (Print ''No new Org Policies Detected.'')
           else
             bnd (emit (Print ''New Org Policies Detected!'')) (\<lambda>_.
               announce_and_save env
                 (set_difference env (sort current_policies) (sort old)))))"

section \<open>Observing a run\<close>

text \<open>
  The chat messages, the status updates and the uploaded baselines of a trace, in
  order, and the calls by kind.
\<close>

fun chat_of :: "event \<Rightarrow> string list" where
  "chat_of (HttpPost url text) = [text]"
| "chat_of _ = []"

fun tweet_of :: "event \<Rightarrow> string list" where
  "tweet_of (Tweet text) = [text]"
| "tweet_of _ = []"

fun upload_of :: "event \<Rightarrow> string list" where
  "upload_of (Upload content) = [content]"
| "upload_of _ = []"

definition chats :: "event list \<Rightarrow> string list" where
  "chats evs = concat (map chat_of evs)"

definition tweets :: "event list \<Rightarrow> string list" where
  "tweets evs = concat (map tweet_of evs)"

definition uploads :: "event list \<Rightarrow> string list" where
  "uploads evs = concat (map upload_of evs)"

fun quiet :: "event \<Rightarrow> bool" where
  "quiet (Print msg) = True"
| "quiet PrintExn = True"
| "quiet (AccessSecret name) = True"
| "quiet _ = False"

fun source_control :: "event \<Rightarrow> bool" where
  "source_control GetRepo = True"
| "source_control GetBranch = True"
| "source_control CreateRef = True"
| "source_control GetContents = True"
| "source_control (UpdateFile content) = True"
| "source_control CreatePull = True"
| "source_control _ = False"

text \<open>A call to one of the three notifiers, and a run that ended in failure.\<close>

definition notifier_call :: "event \<Rightarrow> bool" where
  "notifier_call e \<longleftrightarrow> source_control e \<or> chat_of e \<noteq> [] \<or> tweet_of e \<noteq> []"

definition failed :: "abort + 'a \<Rightarrow> bool" where
  "failed r \<longleftrightarrow> (case r of Inl (SysExit code) \<Rightarrow> code \<noteq> 0 | Inl Uncaught \<Rightarrow> True | Inr _ \<Rightarrow> False)"

text \<open>
  \<open>does m Q\<close>: from any state, \<open>m\<close> only appends events to the trace, and the events
  it appends and its result satisfy \<open>Q\<close>.
\<close>

definition does :: "'a run \<Rightarrow> (event list \<Rightarrow> abort + 'a \<Rightarrow> bool) \<Rightarrow> bool" where
  "does m Q \<longleftrightarrow> (\<forall>s. \<exists>evs. snd (m s) = s\<lparr>trace := trace s @ evs\<rparr> \<and> Q evs (fst (m s)))"

text \<open>
  A name that survives the baseline file: not empty, no line break inside, no white
  space at its end.
\<close>

definition plain_name :: "string \<Rightarrow> bool" where
  "plain_name n \<longleftrightarrow> n \<noteq> [] \<and> CR \<notin> set n \<and> LF \<notin> set n \<and> \<not> isspace (last n)"

text \<open>
  An environment in which every service answers: the listing is given per query,
  every secret is its own name, the webhook replies with status \<open>code\<close>, and names are
  ranked by length.
\<close>

definition answering :: "(nat \<Rightarrow> api_reply) \<Rightarrow> nat \<Rightarrow> env" where
  "answering l code =
     \<lparr>listing = l, list_blobs_ok = True, download_ok = True, upload_ok = True,
      secret_store = (\<lambda>n. Payload n), slot = length,
      repo_ok = True, branch_ok = True, ref_ok = True, contents_ok = True,
      update_file = Some ''https://git.example/c/1'', pull_ok = True,
      oauth_accepts = (\<lambda>creds. True),
      slack_reply = (\<lambda>url text. Status code),
      twitter_accepts = (\<lambda>text. True),
      s_slack_name = ''hook'', s_token_name = ''token'',
      consumer_key_name = ''ck'', consumer_key_secret_name = ''cks'',
      access_token_name = ''at'', access_token_secret_name = ''ats''\<rparr>"

text \<open>
  Conditions on the environment: a secret whose retrieval does not raise, the four
  Twitter secrets, every step of the pull request, and the posts of each loop.
\<close>

definition resolves :: "env \<Rightarrow> string \<Rightarrow> bool" where
  "resolves env name \<longleftrightarrow> secret_store env name \<noteq> OtherFailure"

definition twitter_secrets_resolve :: "env \<Rightarrow> bool" where
  "twitter_secrets_resolve env \<longleftrightarrow>
     resolves env (consumer_key_name env) \<and> resolves env (consumer_key_secret_name env) \<and>
     resolves env (access_token_name env) \<and> resolves env (access_token_secret_name env)"

definition github_ok :: "env \<Rightarrow> bool" where
  "github_ok env \<longleftrightarrow>
     repo_ok env \<and> branch_ok env \<and> ref_ok env \<and> contents_ok env \<and>
     update_file env \<noteq> None \<and> pull_ok env"

definition slack_delivers :: "env \<Rightarrow> string option \<Rightarrow> string list \<Rightarrow> bool" where
  "slack_delivers env url ps =
     list_all (\<lambda>p. case url of None \<Rightarrow> False
                    | Some u \<Rightarrow> slack_reply env u (slack_text p) \<noteq> TransportError) ps"

definition twitter_delivers :: "env \<Rightarrow> unit option \<Rightarrow> string \<Rightarrow> string list \<Rightarrow> bool" where
  "twitter_delivers env tweet commit ps =
     list_all (\<lambda>p. tweet \<noteq> None \<and> twitter_accepts env (tweet_text commit p)) ps"

definition calm :: "bool \<Rightarrow> event list \<Rightarrow> abort + 'a \<Rightarrow> bool" where
  "calm ok evs r \<longleftrightarrow>
     list_all quiet evs \<and> (\<forall>a. r = Inl a \<longrightarrow> a = Uncaught) \<and> (ok \<longrightarrow> (\<exists>v. r = Inr v))"

text \<open>
  Example inputs: a source that lists three names at every query, one whose third
  answer has a fourth name, one that lists a single name, and a baseline file with
  two names.
\<close>

definition abc_listed :: env where
  "abc_listed =
     answering (\<lambda>n. Response (Some [''constraints/a'', ''constraints/b'', ''constraints/c''])) 200"

definition ab_saved :: string where
  "ab_saved = newline_join [''constraints/a'', ''constraints/b'']"

definition growing :: env where
  "growing =
     answering (\<lambda>n. if n = 2
        then Response (Some [''constraints/a'', ''constraints/b'', ''constraints/c'',
                             ''constraints/d''])
        else Response (Some [''constraints/a'', ''constraints/b'', ''constraints/c''])) 200"

definition only_a_listed :: env where
  "only_a_listed = answering (\<lambda>n. Response (Some [''constraints/a''])) 200"



definition services_answer :: "env \<Rightarrow> bool" where
  "services_answer env \<longleftrightarrow>
     list_blobs_ok env \<and> download_ok env \<and> upload_ok env \<and> github_ok env \<and>
     resolves env (s_token_name env) \<and> resolves env (s_slack_name env) \<and>
     twitter_secrets_resolve env"

definition a_then_ac :: env where
  "a_then_ac =
     answering (\<lambda>n. if n = 0 then Response (Some [''constraints/a''])
                     else Response (Some [''constraints/a'', ''constraints/c''])) 200"

text \<open>What \<open>get_latest_secret\<close> hands back when it returns.\<close>

definition secret_value :: "env \<Rightarrow> string \<Rightarrow> string option" where
  "secret_value env name =
     (case secret_store env name of
        Payload d \<Rightarrow> Some (rstrip d)
      | FailedPrecondition \<Rightarrow> None
      | OtherFailure \<Rightarrow> None)"

section \<open>The baseline file\<close>

lemma isspace_LF: "isspace LF"
  by (simp add: isspace_def LF_def)

lemma file_lines_plain_char:
  "c \<noteq> CR \<Longrightarrow> c \<noteq> LF \<Longrightarrow> file_lines acc (c # s) = file_lines (acc @ [c]) s"
  by (cases s) simp_all

lemma file_lines_LF: "file_lines acc (LF # s) = (acc @ [LF]) # file_lines [] s"
  by (cases s) (simp_all add: LF_def CR_def)

lemma file_lines_plain:
  "CR \<notin> set n \<Longrightarrow> LF \<notin> set n \<Longrightarrow> file_lines acc (n @ s) = file_lines (acc @ n) s"
proof (induction n arbitrary: acc)
  case Nil
  then show ?case by simp
next
  case (Cons c n)
  then have "file_lines acc (c # (n @ s)) = file_lines (acc @ [c]) (n @ s)"
    by (intro file_lines_plain_char) auto
  with Cons show ?case by simp
qed

lemma rstrip_plain: "n \<noteq> [] \<Longrightarrow> \<not> isspace (last n) \<Longrightarrow> rstrip n = n"
  by (cases n rule: rev_cases) (simp_all add: rstrip_def)

lemma rstrip_plain_LF: "n \<noteq> [] \<Longrightarrow> \<not> isspace (last n) \<Longrightarrow> rstrip (n @ [LF]) = n"
  by (cases n rule: rev_cases) (simp_all add: rstrip_def isspace_LF)

lemma read_policy_file_join:
  "list_all plain_name names \<Longrightarrow> read_policy_file (newline_join names) = names"
proof (induction names rule: newline_join.induct)
  case 1
  then show ?case by (simp add: read_policy_file_def)
next
  case (2 x)
  then have p: "plain_name x" by simp
  have "file_lines [] (x @ []) = file_lines ([] @ x) []"
    using p by (intro file_lines_plain) (simp_all add: plain_name_def)
  then show ?case using p
    by (simp add: read_policy_file_def plain_name_def rstrip_plain)
next
  case (3 x y ys)
  then have p: "plain_name x" and ih: "read_policy_file (newline_join (y # ys)) = y # ys"
    by simp_all
  have "file_lines [] (x @ LF # newline_join (y # ys)) = file_lines ([] @ x) (LF # newline_join (y # ys))"
    using p by (intro file_lines_plain) (simp_all add: plain_name_def)
  then show ?case using p ih
    by (simp add: read_policy_file_def plain_name_def file_lines_LF rstrip_plain_LF)
qed

section \<open>The posted suffix and the set difference\<close>







lemma set_set_difference: "set (set_difference env current old) = set current - set old"
  by (auto simp: set_difference_def)


lemma sort_eq_iff_mset: "sort xs = sort ys \<longleftrightarrow> mset xs = mset (ys :: string list)"
proof
  assume "sort xs = sort ys"
  then have "mset (sort xs) = mset (sort ys)" by simp
  then show "mset xs = mset ys" by simp
next
  assume "mset xs = mset ys"
  then show "sort xs = sort ys"
    by (metis sorted_list_of_multiset_mset)
qed

lemma set_difference_cong:
  "set old' = set old \<Longrightarrow> set_difference env current old' = set_difference env current old"
  by (simp add: set_difference_def)

section \<open>Reasoning about traces\<close>

lemma chats_simps [simp]:
  "chats [] = []" "chats (e # evs) = chat_of e @ chats evs" "chats (xs @ ys) = chats xs @ chats ys"
  by (simp_all add: chats_def)

lemma tweets_simps [simp]:
  "tweets [] = []" "tweets (e # evs) = tweet_of e @ tweets evs" "tweets (xs @ ys) = tweets xs @ tweets ys"
  by (simp_all add: tweets_def)

lemma uploads_simps [simp]:
  "uploads [] = []" "uploads (e # evs) = upload_of e @ uploads evs" "uploads (xs @ ys) = uploads xs @ uploads ys"
  by (simp_all add: uploads_def)

lemma quiet_chats: "list_all quiet evs \<Longrightarrow> chats evs = []"
  by (induction evs) (auto elim: quiet.elims)

lemma quiet_tweets: "list_all quiet evs \<Longrightarrow> tweets evs = []"
  by (induction evs) (auto elim: quiet.elims)

lemma quiet_uploads: "list_all quiet evs \<Longrightarrow> uploads evs = []"
  by (induction evs) (auto elim: quiet.elims)

lemma doesI:
  "(\<And>s. \<exists>evs. snd (m s) = s\<lparr>trace := trace s @ evs\<rparr> \<and> Q evs (fst (m s))) \<Longrightarrow> does m Q"
  by (simp add: does_def)

lemma doesD:
  "does m Q \<Longrightarrow> \<exists>evs. snd (m s) = s\<lparr>trace := trace s @ evs\<rparr> \<and> Q evs (fst (m s))"
  by (simp add: does_def)

lemma does_weaken: "does m Q \<Longrightarrow> (\<And>evs r. Q evs r \<Longrightarrow> Q' evs r) \<Longrightarrow> does m Q'"
  unfolding does_def by blast

lemma does_ret: "Q [] (Inr x) \<Longrightarrow> does (ret x) Q"
  unfolding does_def ret_def by (intro allI exI [of _ "[]"]) simp

lemma does_throw: "Q [] (Inl a) \<Longrightarrow> does (throw a) Q"
  unfolding does_def throw_def by (intro allI exI [of _ "[]"]) simp

lemma does_emit: "Q [e] (Inr ()) \<Longrightarrow> does (emit e) Q"
  unfolding does_def emit_def by (intro allI exI [of _ "[e]"]) simp

lemma does_bnd:
  assumes m: "does m Q"
    and k: "\<And>x. does (k x) (R x)"
    and stop: "\<And>evs a. Q evs (Inl a) \<Longrightarrow> Q' evs (Inl a)"
    and go: "\<And>evs x evs' r. Q evs (Inr x) \<Longrightarrow> R x evs' r \<Longrightarrow> Q' (evs @ evs') r"
  shows "does (bnd m k) Q'"
proof (rule doesI)
  fix s
  obtain evs where 1: "snd (m s) = s\<lparr>trace := trace s @ evs\<rparr>" and 2: "Q evs (fst (m s))"
    using doesD [OF m] by blast
  show "\<exists>evs. snd (bnd m k s) = s\<lparr>trace := trace s @ evs\<rparr> \<and> Q' evs (fst (bnd m k s))"
  proof (cases "fst (m s)")
    case (Inl a)
    then have "bnd m k s = (Inl a, snd (m s))"
      by (cases "m s") (simp add: bnd_def)
    with 1 2 Inl stop show ?thesis by auto
  next
    case (Inr x)
    then have b: "bnd m k s = k x (snd (m s))"
      by (cases "m s") (simp add: bnd_def)
    obtain evs' where 3: "snd (k x (snd (m s))) = (snd (m s))\<lparr>trace := trace (snd (m s)) @ evs'\<rparr>"
      and 4: "R x evs' (fst (k x (snd (m s))))"
      using doesD [OF k] by blast
    from 2 Inr 4 have "Q' (evs @ evs') (fst (bnd m k s))"
      by (simp add: b go)
    moreover have "snd (bnd m k s) = (snd (m s))\<lparr>trace := trace (snd (m s)) @ evs'\<rparr>"
      by (simp only: b 3)
    then have "snd (bnd m k s) = s\<lparr>trace := trace s @ evs @ evs'\<rparr>"
      by (simp add: 1)
    ultimately show ?thesis by blast
  qed
qed

lemma calm_bnd:
  assumes "does m (calm a)" and "\<And>x. does (k x) (calm b)"
  shows "does (bnd m k) (calm (a \<and> b))"
  using assms by (rule does_bnd) (auto simp: calm_def)

lemma get_latest_secret_does:
  "does (get_latest_secret env n)
     (\<lambda>evs r. list_all quiet evs \<and>
        r = (case secret_store env n of
               Payload d \<Rightarrow> Inr (Some (rstrip d))
             | FailedPrecondition \<Rightarrow> Inr None
             | OtherFailure \<Rightarrow> Inl Uncaught))"
  unfolding does_def get_latest_secret_def
  by (cases "secret_store env n") (auto simp: bnd_def emit_def ret_def throw_def)

lemma get_latest_secret_calm: "does (get_latest_secret env n) (calm (resolves env n))"
  by (rule does_weaken [OF get_latest_secret_does])
     (auto simp: calm_def resolves_def split: secret_reply.splits)

lemma get_twitter_secrets_calm:
  "does (get_twitter_secrets env) (calm (twitter_secrets_resolve env))"
proof -
  have "does (get_twitter_secrets env)
     (calm (resolves env (consumer_key_name env) \<and> resolves env (consumer_key_secret_name env) \<and>
            resolves env (access_token_name env) \<and> resolves env (access_token_secret_name env) \<and> True))"
    unfolding get_twitter_secrets_def
    by (intro calm_bnd get_latest_secret_calm does_ret) (simp add: calm_def)
  then show ?thesis by (simp add: twitter_secrets_resolve_def)
qed

lemma create_twitter_connection_calm:
  "does (create_twitter_connection env) (calm (twitter_secrets_resolve env))"
proof -
  have "does (create_twitter_connection env) (calm (twitter_secrets_resolve env \<and> True))"
    unfolding create_twitter_connection_def
  proof (rule calm_bnd [OF get_twitter_secrets_calm])
    fix creds
    have "does (bnd (emit PrintExn) (\<lambda>_. ret None :: unit option run)) (calm True)"
      unfolding does_def
      by (intro allI exI [of _ "[PrintExn]"]) (simp add: bnd_def emit_def ret_def calm_def)
    then show "does (if oauth_accepts env creds then ret (Some ())
                else bnd (emit PrintExn) (\<lambda>_. ret None)) (calm True)"
      by (simp add: does_ret calm_def)
  qed
  then show ?thesis by simp
qed

lemma slack_loop_run:
  "\<exists>evs k. slack_loop env url ps s =
             (if slack_delivers env url ps then Inr () else Inl (SysExit 1),
              s\<lparr>trace := trace s @ evs\<rparr>) \<and>
     tweets evs = [] \<and> uploads evs = [] \<and> k \<le> length ps \<and>
     chats evs = map slack_text (take k ps) \<and>
     (slack_delivers env url ps \<longrightarrow> k = length ps)"
proof (induction ps arbitrary: s)
  case Nil
  show ?case
    by (rule exI [of _ "[]"]) (simp add: ret_def slack_delivers_def)
next
  case (Cons p ps)
  let ?ok = "case url of None \<Rightarrow> False
             | Some u \<Rightarrow> slack_reply env u (slack_text p) \<noteq> TransportError"
  let ?post = "HttpPost url (slack_text p)"
  show ?case
  proof (cases ?ok)
    case False
    have "slack_loop env url (p # ps) s =
            (Inl (SysExit 1), s\<lparr>trace := trace s @ [?post, PrintExn]\<rparr>)"
      using False by (simp add: bnd_def emit_def throw_def)
    moreover have "\<not> slack_delivers env url (p # ps)"
      using False by (simp add: slack_delivers_def)
    ultimately show ?thesis
      by (intro exI [of _ "[?post, PrintExn]"] exI [of _ "1"]) simp
  next
    case True
    let ?s1 = "s\<lparr>trace := trace s @ [?post, Print ''Posting to Slack'']\<rparr>"
    have step: "slack_loop env url (p # ps) s = slack_loop env url ps ?s1"
      using True by (simp add: bnd_def emit_def)
    have d: "slack_delivers env url (p # ps) = slack_delivers env url ps"
      using True by (simp add: slack_delivers_def)
    obtain evs k where r: "slack_loop env url ps ?s1 =
             (if slack_delivers env url ps then Inr () else Inl (SysExit 1),
              ?s1\<lparr>trace := trace ?s1 @ evs\<rparr>)"
      and e: "tweets evs = []" "uploads evs = []" "k \<le> length ps"
        "chats evs = map slack_text (take k ps)"
        "slack_delivers env url ps \<longrightarrow> k = length ps"
      using Cons.IH [of ?s1] by blast
    show ?thesis
      unfolding step d r using e
      by (intro exI [of _ "[?post, Print ''Posting to Slack''] @ evs"] exI [of _ "Suc k"])
         simp
  qed
qed

lemma twitter_loop_run:
  "\<exists>evs k. twitter_loop env tweet commit ps s =
             (if twitter_delivers env tweet commit ps then Inr () else Inl (SysExit 1),
              s\<lparr>trace := trace s @ evs\<rparr>) \<and>
     chats evs = [] \<and> uploads evs = [] \<and> k \<le> length ps \<and>
     tweets evs = map (tweet_text commit) (take k ps) \<and>
     (twitter_delivers env tweet commit ps \<longrightarrow> k = length ps)"
proof (induction ps arbitrary: s)
  case Nil
  show ?case
    by (rule exI [of _ "[]"]) (simp add: ret_def twitter_delivers_def)
next
  case (Cons p ps)
  let ?post = "Tweet (tweet_text commit p)"
  show ?case
  proof (cases "tweet \<noteq> None \<and> twitter_accepts env (tweet_text commit p)")
    case False
    have n: "\<not> twitter_delivers env tweet commit (p # ps)"
      using False by (auto simp: twitter_delivers_def)
    show ?thesis
    proof (cases tweet)
      case None
      then have "twitter_loop env tweet commit (p # ps) s =
            (Inl (SysExit 1), s\<lparr>trace := trace s @ [PrintExn]\<rparr>)"
        by (simp add: bnd_def emit_def throw_def)
      with n show ?thesis
        by (intro exI [of _ "[PrintExn]"] exI [of _ "0"]) simp
    next
      case (Some h)
      with False have "twitter_loop env tweet commit (p # ps) s =
            (Inl (SysExit 1), s\<lparr>trace := trace s @ [?post, PrintExn]\<rparr>)"
        by (simp add: bnd_def emit_def throw_def)
      with n show ?thesis
        by (intro exI [of _ "[?post, PrintExn]"] exI [of _ "1"]) simp
    qed
  next
    case True
    let ?s1 = "s\<lparr>trace := trace s @ [?post]\<rparr>"
    have step: "twitter_loop env tweet commit (p # ps) s = twitter_loop env tweet commit ps ?s1"
      using True by (auto simp: bnd_def emit_def)
    have d: "twitter_delivers env tweet commit (p # ps) = twitter_delivers env tweet commit ps"
      using True by (simp add: twitter_delivers_def)
    obtain evs k where r: "twitter_loop env tweet commit ps ?s1 =
             (if twitter_delivers env tweet commit ps then Inr () else Inl (SysExit 1),
              ?s1\<lparr>trace := trace ?s1 @ evs\<rparr>)"
      and e: "chats evs = []" "uploads evs = []" "k \<le> length ps"
        "tweets evs = map (tweet_text commit) (take k ps)"
        "twitter_delivers env tweet commit ps \<longrightarrow> k = length ps"
      using Cons.IH [of ?s1] by blast
    show ?thesis
      unfolding step d r using e
      by (intro exI [of _ "[?post] @ evs"] exI [of _ "Suc k"]) simp
  qed
qed

lemma failed_simps [simp]:
  "failed (Inl (SysExit code)) \<longleftrightarrow> code \<noteq> 0"
  "failed (Inl Uncaught)"
  "\<not> failed (Inr v)"
  by (simp_all add: failed_def)

lemma not_exit0_failed: "a \<noteq> SysExit 0 \<Longrightarrow> failed (Inl a)"
  by (cases a) simp_all

lemma slack_loop_does:
  "does (slack_loop env url ps)
     (\<lambda>evs r. r = (if slack_delivers env url ps then Inr () else Inl (SysExit 1)) \<and>
        tweets evs = [] \<and> uploads evs = [] \<and>
        (\<exists>k\<le>length ps. chats evs = map slack_text (take k ps) \<and>
           (slack_delivers env url ps \<longrightarrow> k = length ps)))"
proof (rule doesI)
  fix s
  obtain evs k where "slack_loop env url ps s =
             (if slack_delivers env url ps then Inr () else Inl (SysExit 1),
              s\<lparr>trace := trace s @ evs\<rparr>)"
    "tweets evs = []" "uploads evs = []" "k \<le> length ps"
    "chats evs = map slack_text (take k ps)" "slack_delivers env url ps \<longrightarrow> k = length ps"
    using slack_loop_run [of env url ps s] by blast
  then show "\<exists>evs. snd (slack_loop env url ps s) = s\<lparr>trace := trace s @ evs\<rparr> \<and>
       (fst (slack_loop env url ps s) = (if slack_delivers env url ps then Inr () else Inl (SysExit 1)) \<and>
        tweets evs = [] \<and> uploads evs = [] \<and>
        (\<exists>k\<le>length ps. chats evs = map slack_text (take k ps) \<and>
           (slack_delivers env url ps \<longrightarrow> k = length ps)))"
    by (intro exI [of _ evs]) auto
qed

lemma twitter_loop_does:
  "does (twitter_loop env tweet commit ps)
     (\<lambda>evs r. r = (if twitter_delivers env tweet commit ps then Inr () else Inl (SysExit 1)) \<and>
        chats evs = [] \<and> uploads evs = [] \<and>
        (\<exists>k\<le>length ps. tweets evs = map (tweet_text commit) (take k ps) \<and>
           (twitter_delivers env tweet commit ps \<longrightarrow> k = length ps)))"
proof (rule doesI)
  fix s
  obtain evs k where "twitter_loop env tweet commit ps s =
             (if twitter_delivers env tweet commit ps then Inr () else Inl (SysExit 1),
              s\<lparr>trace := trace s @ evs\<rparr>)"
    "chats evs = []" "uploads evs = []" "k \<le> length ps"
    "tweets evs = map (tweet_text commit) (take k ps)"
    "twitter_delivers env tweet commit ps \<longrightarrow> k = length ps"
    using twitter_loop_run [of env tweet commit ps s] by blast
  then show "\<exists>evs. snd (twitter_loop env tweet commit ps s) = s\<lparr>trace := trace s @ evs\<rparr> \<and>
       (fst (twitter_loop env tweet commit ps s) =
          (if twitter_delivers env tweet commit ps then Inr () else Inl (SysExit 1)) \<and>
        chats evs = [] \<and> uploads evs = [] \<and>
        (\<exists>k\<le>length ps. tweets evs = map (tweet_text commit) (take k ps) \<and>
           (twitter_delivers env tweet commit ps \<longrightarrow> k = length ps)))"
    by (intro exI [of _ evs]) auto
qed

lemma post_to_slack_does:
  "does (post_to_slack env ps)
     (\<lambda>evs r. tweets evs = [] \<and> uploads evs = [] \<and>
        (\<exists>k\<le>length ps. chats evs = map slack_text (take k ps) \<and>
           (r = Inr () \<longrightarrow> k = length ps)) \<and>
        (\<forall>a. r = Inl a \<longrightarrow> a \<noteq> SysExit 0) \<and>
        (resolves env (s_slack_name env) \<and> twitter_secrets_resolve env \<longrightarrow>
           r = (if slack_delivers env (secret_value env (s_slack_name env)) ps
                then Inr () else Inl (SysExit 1))))"
  unfolding post_to_slack_def
proof (rule does_bnd [OF get_latest_secret_does])
  fix url
  show "does (bnd (create_twitter_connection env) (\<lambda>tweet. slack_loop env url ps))
     (\<lambda>evs r. tweets evs = [] \<and> uploads evs = [] \<and>
        (\<exists>k\<le>length ps. chats evs = map slack_text (take k ps) \<and>
           (r = Inr () \<longrightarrow> k = length ps)) \<and>
        (\<forall>a. r = Inl a \<longrightarrow> a \<noteq> SysExit 0) \<and>
        (twitter_secrets_resolve env \<longrightarrow>
           r = (if slack_delivers env url ps then Inr () else Inl (SysExit 1))))"
    by (rule does_bnd [OF create_twitter_connection_calm slack_loop_does])
       (auto simp: calm_def quiet_chats quiet_tweets quiet_uploads intro: exI [of _ 0])
next
  fix evs a
  assume "list_all quiet evs \<and>
       Inl a = (case secret_store env (s_slack_name env) of
               Payload d \<Rightarrow> Inr (Some (rstrip d))
             | FailedPrecondition \<Rightarrow> Inr None
             | OtherFailure \<Rightarrow> Inl Uncaught)"
  then show "tweets evs = [] \<and> uploads evs = [] \<and>
        (\<exists>k\<le>length ps. chats evs = map slack_text (take k ps) \<and>
           (Inl a = Inr () \<longrightarrow> k = length ps)) \<and>
        (\<forall>a'. Inl a = Inl a' \<longrightarrow> a' \<noteq> SysExit 0) \<and>
        (resolves env (s_slack_name env) \<and> twitter_secrets_resolve env \<longrightarrow>
           Inl a = (if slack_delivers env (secret_value env (s_slack_name env)) ps
                then Inr () else Inl (SysExit 1)))"
    by (auto simp: quiet_chats quiet_tweets quiet_uploads resolves_def
             split: secret_reply.splits intro: exI [of _ 0])
next
  fix evs x evs' r
  assume "list_all quiet evs \<and>
       Inr x = (case secret_store env (s_slack_name env) of
               Payload d \<Rightarrow> Inr (Some (rstrip d))
             | FailedPrecondition \<Rightarrow> Inr None
             | OtherFailure \<Rightarrow> Inl Uncaught)"
    and "tweets evs' = [] \<and> uploads evs' = [] \<and>
        (\<exists>k\<le>length ps. chats evs' = map slack_text (take k ps) \<and>
           (r = Inr () \<longrightarrow> k = length ps)) \<and>
        (\<forall>a. r = Inl a \<longrightarrow> a \<noteq> SysExit 0) \<and>
        (twitter_secrets_resolve env \<longrightarrow>
           r = (if slack_delivers env x ps then Inr () else Inl (SysExit 1)))"
  then show "tweets (evs @ evs') = [] \<and> uploads (evs @ evs') = [] \<and>
        (\<exists>k\<le>length ps. chats (evs @ evs') = map slack_text (take k ps) \<and>
           (r = Inr () \<longrightarrow> k = length ps)) \<and>
        (\<forall>a. r = Inl a \<longrightarrow> a \<noteq> SysExit 0) \<and>
        (resolves env (s_slack_name env) \<and> twitter_secrets_resolve env \<longrightarrow>
           r = (if slack_delivers env (secret_value env (s_slack_name env)) ps
                then Inr () else Inl (SysExit 1)))"
    by (auto simp: quiet_chats quiet_tweets quiet_uploads secret_value_def
             split: secret_reply.splits)
qed

lemma post_to_twitter_does:
  "does (post_to_twitter env ps commit)
     (\<lambda>evs r. chats evs = [] \<and> uploads evs = [] \<and>
        (\<exists>k\<le>length ps. tweets evs = map (tweet_text commit) (take k ps) \<and>
           (r = Inr () \<longrightarrow> k = length ps)) \<and>
        (\<forall>a. r = Inl a \<longrightarrow> a \<noteq> SysExit 0) \<and>
        (twitter_secrets_resolve env \<and> ps = [] \<longrightarrow> r = Inr ()))"
  unfolding post_to_twitter_def
  by (rule does_bnd [OF create_twitter_connection_calm twitter_loop_does])
     (auto simp: calm_def quiet_chats quiet_tweets quiet_uploads twitter_delivers_def
           intro: exI [of _ 0])

lemma trace_update_eq: "(s\<lparr>trace := a\<rparr> = s\<lparr>trace := b\<rparr>) = (a = b)"
  by (cases s) simp

lemma create_pr_does:
  "does (create_pr env content)
     (\<lambda>evs r. chats evs = [] \<and> tweets evs = [] \<and> uploads evs = [] \<and>
        (\<forall>u. r = Inr u \<longrightarrow> update_file env = Some u \<and> evs \<noteq> [] \<and> last evs = CreatePull) \<and>
        (\<forall>a. r = Inl a \<longrightarrow> a \<noteq> SysExit 0) \<and>
        (resolves env (s_token_name env) \<and> github_ok env \<longrightarrow> (\<exists>u. r = Inr u)))"
  unfolding does_def
proof
  fix s
  show "\<exists>evs. snd (create_pr env content s) = s\<lparr>trace := trace s @ evs\<rparr> \<and>
       (chats evs = [] \<and> tweets evs = [] \<and> uploads evs = [] \<and>
        (\<forall>u. fst (create_pr env content s) = Inr u \<longrightarrow>
             update_file env = Some u \<and> evs \<noteq> [] \<and> last evs = CreatePull) \<and>
        (\<forall>a. fst (create_pr env content s) = Inl a \<longrightarrow> a \<noteq> SysExit 0) \<and>
        (resolves env (s_token_name env) \<and> github_ok env \<longrightarrow>
           (\<exists>u. fst (create_pr env content s) = Inr u)))"
    by (cases "secret_store env (s_token_name env)"; cases "update_file env")
       (simp_all add: create_pr_def attempt_def get_latest_secret_def bnd_def emit_def ret_def
          throw_def resolves_def github_ok_def trace_update_eq)
qed

lemma create_pr_file_content_run:
  "\<exists>evs. snd (create_pr_file_content env s) =
           s\<lparr>queries := Suc (queries s), trace := trace s @ evs\<rparr> \<and>
     chats evs = [] \<and> tweets evs = [] \<and> uploads evs = [] \<and>
     (\<forall>u. fst (create_pr_file_content env s) = Inr u \<longrightarrow>
          update_file env = Some u \<and> evs \<noteq> [] \<and> last evs = CreatePull) \<and>
     (\<forall>a. fst (create_pr_file_content env s) = Inl a \<longrightarrow> a \<noteq> SysExit 0) \<and>
     ((\<exists>r. listing env (queries s) = Response r) \<and> resolves env (s_token_name env) \<and>
        github_ok env \<longrightarrow> (\<exists>u. fst (create_pr_file_content env s) = Inr u))"
proof (cases "listing env (queries s)")
  case RequestFailed
  then have "create_pr_file_content env s =
      (Inl (SysExit 1), s\<lparr>queries := Suc (queries s), trace := trace s @ [ListConstraints, PrintExn]\<rparr>)"
    by (simp add: create_pr_file_content_def bnd_def list_org_policies_def)
  with RequestFailed show ?thesis
    by (intro exI [of _ "[ListConstraints, PrintExn]"]) simp
next
  case (Response content)
  let ?s1 = "s\<lparr>queries := Suc (queries s), trace := trace s @ [ListConstraints]\<rparr>"
  have c: "create_pr_file_content env s = create_pr env content ?s1"
    using Response by (simp add: create_pr_file_content_def bnd_def list_org_policies_def)
  obtain evs where e: "snd (create_pr env content ?s1) = ?s1\<lparr>trace := trace ?s1 @ evs\<rparr>"
    and q: "chats evs = []" "tweets evs = []" "uploads evs = []"
      "\<forall>u. fst (create_pr env content ?s1) = Inr u \<longrightarrow>
           update_file env = Some u \<and> evs \<noteq> [] \<and> last evs = CreatePull"
      "\<forall>a. fst (create_pr env content ?s1) = Inl a \<longrightarrow> a \<noteq> SysExit 0"
      "resolves env (s_token_name env) \<and> github_ok env \<longrightarrow>
         (\<exists>u. fst (create_pr env content ?s1) = Inr u)"
    using doesD [OF create_pr_does, of env content ?s1] by blast
  show ?thesis
    unfolding c using e q
    by (intro exI [of _ "ListConstraints # evs"]) auto
qed

lemma upload_policy_file_run:
  "\<exists>evs. trace (snd (upload_policy_file env s)) = trace s @ evs \<and>
     chats evs = [] \<and> tweets evs = [] \<and> length (uploads evs) \<le> 1 \<and>
     (\<forall>v. fst (upload_policy_file env s) \<noteq> Inr v) \<and>
     (\<not> failed (fst (upload_policy_file env s)) \<longrightarrow>
        fst (upload_policy_file env s) = Inl (SysExit 0) \<and> upload_ok env \<and>
        (\<exists>names. listing env (queries s) = Response (Some names) \<and>
           blob (snd (upload_policy_file env s)) = Some (newline_join names) \<and>
           uploads evs = [newline_join names] \<and>
           evs = [ListConstraints, WriteLocal (newline_join names), Upload (newline_join names),
                  Print ''New Policies Uploaded. Exiting.''])) \<and>
     (failed (fst (upload_policy_file env s)) \<longrightarrow>
        blob (snd (upload_policy_file env s)) = blob s) \<and>
     (upload_ok env \<and> (\<exists>names. listing env (queries s) = Response (Some names)) \<longrightarrow>
        \<not> failed (fst (upload_policy_file env s)))"
proof (cases "listing env (queries s)")
  case RequestFailed
  then show ?thesis
    by (intro exI [of _ "[ListConstraints, PrintExn]"])
       (simp add: upload_policy_file_def constraint_transform_def list_org_policies_def
          bnd_def emit_def throw_def ret_def)
next
  case (Response content)
  show ?thesis
  proof (cases content)
    case None
    with Response show ?thesis
      by (intro exI [of _ "[ListConstraints]"])
         (simp add: upload_policy_file_def constraint_transform_def list_org_policies_def
            bnd_def emit_def throw_def ret_def)
  next
    case (Some names)
    with Response show ?thesis
      by (cases "upload_ok env";
          intro exI [of _ "[ListConstraints, WriteLocal (newline_join names),
             Upload (newline_join names)] @
             (if upload_ok env then [Print ''New Policies Uploaded. Exiting.''] else [])"])
         (simp_all add: upload_policy_file_def constraint_transform_def list_org_policies_def
            bnd_def emit_def throw_def ret_def)
  qed
qed

section \<open>The run after a difference was found\<close>

lemma bnd_Inl: "fst (m s) = Inl a \<Longrightarrow> bnd m k s = (Inl a, snd (m s))"
  by (cases "m s") (simp add: bnd_def)

lemma bnd_Inr: "fst (m s) = Inr x \<Longrightarrow> bnd m k s = k x (snd (m s))"
  by (cases "m s") (simp add: bnd_def)

lemma announce_and_save_run:
  "\<exists>A B k j.
     trace (snd (announce_and_save env new s)) = trace s @ A @ B \<and>
     chats A = [] \<and> tweets A = [] \<and>
     (B = [] \<or> (A \<noteq> [] \<and> last A = CreatePull \<and> update_file env \<noteq> None)) \<and>
     k \<le> length new \<and> j \<le> length new \<and>
     chats B = map slack_text (take k new) \<and>
     (\<forall>u. update_file env = Some u \<longrightarrow> tweets B = map (tweet_text u) (take j new)) \<and>
     length (uploads (A @ B)) \<le> 1 \<and>
     (\<forall>v. fst (announce_and_save env new s) \<noteq> Inr v) \<and>
     (failed (fst (announce_and_save env new s)) \<longrightarrow>
        blob (snd (announce_and_save env new s)) = blob s) \<and>
     (\<not> failed (fst (announce_and_save env new s)) \<longrightarrow>
        k = length new \<and> j = length new \<and>
        (\<exists>names. listing env (Suc (queries s)) = Response (Some names) \<and>
           blob (snd (announce_and_save env new s)) = Some (newline_join names) \<and>
           uploads (A @ B) = [newline_join names]))"
proof -
  let ?R = "announce_and_save env new s"
  let ?pr = "create_pr_file_content env s"
  obtain e1 where s1: "snd ?pr = s\<lparr>queries := Suc (queries s), trace := trace s @ e1\<rparr>"
    and q1: "chats e1 = []" "tweets e1 = []" "uploads e1 = []"
    and ok1: "\<forall>u. fst ?pr = Inr u \<longrightarrow> update_file env = Some u \<and> e1 \<noteq> [] \<and> last e1 = CreatePull"
    and ko1: "\<forall>a. fst ?pr = Inl a \<longrightarrow> a \<noteq> SysExit 0"
    using create_pr_file_content_run [of env s] by blast
  show ?thesis
  proof (cases "fst ?pr")
    case (Inl a)
    then have R: "?R = (Inl a, snd ?pr)"
      unfolding announce_and_save_def by (rule bnd_Inl)
    have "failed (Inl a :: abort + unit)"
      using ko1 Inl by (simp add: not_exit0_failed)
    then show ?thesis
      unfolding R using s1 q1
      by (intro exI [of _ e1] exI [of _ "[]"] exI [of _ 0]) simp
  next
    case (Inr u)
    with ok1 have u: "update_file env = Some u" "e1 \<noteq> []" "last e1 = CreatePull"
      by simp_all
    let ?s1 = "snd ?pr"
    let ?sl = "post_to_slack env new ?s1"
    have R1: "?R = bnd (post_to_slack env new) (\<lambda>_.
                 bnd (post_to_twitter env new u) (\<lambda>_. upload_policy_file env)) ?s1"
      unfolding announce_and_save_def using Inr by (rule bnd_Inr)
    obtain e2 k where s2: "snd ?sl = ?s1\<lparr>trace := trace ?s1 @ e2\<rparr>"
      and q2: "tweets e2 = []" "uploads e2 = []" "k \<le> length new"
        "chats e2 = map slack_text (take k new)"
      and ok2: "fst ?sl = Inr () \<longrightarrow> k = length new"
      and ko2: "\<forall>a. fst ?sl = Inl a \<longrightarrow> a \<noteq> SysExit 0"
      using doesD [OF post_to_slack_does, of env new ?s1] by blast
    show ?thesis
    proof (cases "fst ?sl")
      case (Inl a)
      then have R: "?R = (Inl a, snd ?sl)"
        unfolding R1 by (rule bnd_Inl)
      have "failed (Inl a :: abort + unit)"
        using ko2 Inl by (simp add: not_exit0_failed)
      then show ?thesis
        unfolding R using s1 s2 q1 q2 u
        by (intro exI [of _ e1] exI [of _ e2] exI [of _ k] exI [of _ 0]) simp
    next
      case (Inr x)
      with ok2 have k: "k = length new" by simp
      let ?s2 = "snd ?sl"
      let ?tw = "post_to_twitter env new u ?s2"
      have R2: "?R = bnd (post_to_twitter env new u) (\<lambda>_. upload_policy_file env) ?s2"
        unfolding R1 using Inr by (rule bnd_Inr)
      obtain e3 j where s3: "snd ?tw = ?s2\<lparr>trace := trace ?s2 @ e3\<rparr>"
        and q3: "chats e3 = []" "uploads e3 = []" "j \<le> length new"
          "tweets e3 = map (tweet_text u) (take j new)"
        and ok3: "fst ?tw = Inr () \<longrightarrow> j = length new"
        and ko3: "\<forall>a. fst ?tw = Inl a \<longrightarrow> a \<noteq> SysExit 0"
        using doesD [OF post_to_twitter_does, of env new u ?s2] by blast
      show ?thesis
      proof (cases "fst ?tw")
        case (Inl a)
        then have R: "?R = (Inl a, snd ?tw)"
          unfolding R2 by (rule bnd_Inl)
        have "failed (Inl a :: abort + unit)"
          using ko3 Inl by (simp add: not_exit0_failed)
        then show ?thesis
          unfolding R using s1 s2 s3 q1 q2 q3 u
          by (intro exI [of _ e1] exI [of _ "e2 @ e3"] exI [of _ k] exI [of _ j]) simp
      next
        case (Inr y)
        with ok3 have j: "j = length new" by simp
        let ?s3 = "snd ?tw"
        have R: "?R = upload_policy_file env ?s3"
          unfolding R2 using Inr by (rule bnd_Inr)
        have t1: "queries ?s1 = Suc (queries s)" "blob ?s1 = blob s" "trace ?s1 = trace s @ e1"
          by (simp_all add: s1)
        have t2: "queries ?s2 = Suc (queries s)" "blob ?s2 = blob s"
          "trace ?s2 = trace s @ e1 @ e2"
          by (simp_all add: s2 t1)
        have qs: "queries ?s3 = Suc (queries s)" "blob ?s3 = blob s"
          "trace ?s3 = trace s @ e1 @ e2 @ e3"
          by (simp_all add: s3 t2)
        obtain e4 where s4: "trace (snd (upload_policy_file env ?s3)) = trace ?s3 @ e4"
          and q4: "chats e4 = []" "tweets e4 = []" "length (uploads e4) \<le> 1"
            "\<forall>v. fst (upload_policy_file env ?s3) \<noteq> Inr v"
          and ok4: "\<not> failed (fst (upload_policy_file env ?s3)) \<longrightarrow>
             (\<exists>names. listing env (queries ?s3) = Response (Some names) \<and>
                blob (snd (upload_policy_file env ?s3)) = Some (newline_join names) \<and>
                uploads e4 = [newline_join names])"
          and ko4: "failed (fst (upload_policy_file env ?s3)) \<longrightarrow>
             blob (snd (upload_policy_file env ?s3)) = blob ?s3"
          using upload_policy_file_run [of env ?s3] by blast
        show ?thesis
          unfolding R using s4 q1 q2 q3 q4 ok4 ko4 u k j
          by (intro exI [of _ e1] exI [of _ "e2 @ e3 @ e4"] exI [of _ k] exI [of _ j])
             (simp add: qs)
      qed
    qed
  qed
qed

section \<open>The whole run\<close>

lemmas run_defs = compare_policies_def fetch_old_policies_def download_policy_file_def
  constraint_transform_def list_org_policies_def announce_and_save_def create_pr_file_content_def
  create_pr_def attempt_def get_latest_secret_def post_to_slack_def post_to_twitter_def
  create_twitter_connection_def get_twitter_secrets_def upload_policy_file_def
  bnd_def emit_def ret_def throw_def start_def answering_def
  read_policy_file_def rstrip_def isspace_def set_difference_def CR_def LF_def
  slack_text_def tweet_text_def notifier_call_def

lemma compare_policies_with_baseline:
  "compare_policies env (start (Some c)) =
     (if \<not> list_blobs_ok env
      then (Inl Uncaught, \<lparr>blob = Some c, queries = 0, trace = [ListBlobs]\<rparr>)
      else if \<not> download_ok env
      then (Inl Uncaught, \<lparr>blob = Some c, queries = 0, trace = [ListBlobs, Download]\<rparr>)
      else case listing env 0 of
        RequestFailed \<Rightarrow>
          (Inl (SysExit 1), \<lparr>blob = Some c, queries = 1,
             trace = [ListBlobs, Download, Print ''Org Policy File Downloaded from GCS Bucket'',
                      ListConstraints, PrintExn]\<rparr>)
      | Response None \<Rightarrow>
          (Inl Uncaught, \<lparr>blob = Some c, queries = 1,
             trace = [ListBlobs, Download, Print ''Org Policy File Downloaded from GCS Bucket'',
                      ListConstraints]\<rparr>)
      | Response (Some current) \<Rightarrow>
          if sort current = sort (read_policy_file c)
          then (Inr (), \<lparr>blob = Some c, queries = 1,
             trace = [ListBlobs, Download, Print ''Org Policy File Downloaded from GCS Bucket'',
                      ListConstraints, Print ''No new Org Policies Detected.'']\<rparr>)
          else announce_and_save env
                 (set_difference env (sort current) (sort (read_policy_file c)))
                 \<lparr>blob = Some c, queries = 1,
                  trace = [ListBlobs, Download,
                           Print ''Org Policy File Downloaded from GCS Bucket'',
                           ListConstraints, Print ''New Org Policies Detected!'']\<rparr>)"
  by (simp add: compare_policies_def fetch_old_policies_def download_policy_file_def
        constraint_transform_def list_org_policies_def bnd_def emit_def ret_def throw_def
        start_def split: api_reply.splits option.splits)

lemma compare_policies_bootstrap:
  "compare_policies env (start None) =
     (if \<not> list_blobs_ok env
      then (Inl Uncaught, \<lparr>blob = None, queries = 0, trace = [ListBlobs]\<rparr>)
      else case listing env 0 of
        RequestFailed \<Rightarrow>
          (Inl (SysExit 1), \<lparr>blob = None, queries = 1,
             trace = [ListBlobs, ListConstraints, PrintExn]\<rparr>)
      | Response None \<Rightarrow>
          (Inl Uncaught, \<lparr>blob = None, queries = 1, trace = [ListBlobs, ListConstraints]\<rparr>)
      | Response (Some names) \<Rightarrow>
          if upload_ok env
          then (Inl (SysExit 0), \<lparr>blob = Some (newline_join names), queries = 1,
             trace = [ListBlobs, ListConstraints, WriteLocal (newline_join names),
                      Upload (newline_join names), Print ''New Policies Uploaded. Exiting.'']\<rparr>)
          else (Inl Uncaught, \<lparr>blob = None, queries = 1,
             trace = [ListBlobs, ListConstraints, WriteLocal (newline_join names),
                      Upload (newline_join names)]\<rparr>))"
  by (simp add: compare_policies_def fetch_old_policies_def upload_policy_file_def
        constraint_transform_def list_org_policies_def bnd_def emit_def ret_def throw_def
        start_def split: api_reply.splits option.splits)

lemma not_failed_exit0: "\<not> failed r \<Longrightarrow> \<forall>v. r \<noteq> Inr v \<Longrightarrow> r = Inl (SysExit 0)"
  by (cases r) (auto simp: failed_def split: abort.splits)

lemma detected_run:
  assumes "list_blobs_ok env" "download_ok env"
    and "listing env 0 = Response (Some current)"
    and "sort current \<noteq> sort (read_policy_file content)"
  shows "compare_policies env (start (Some content)) =
     announce_and_save env (set_difference env (sort current) (sort (read_policy_file content)))
       \<lparr>blob = Some content, queries = 1,
        trace = [ListBlobs, Download, Print ''Org Policy File Downloaded from GCS Bucket'',
                 ListConstraints, Print ''New Org Policies Detected!'']\<rparr>"
  using assms by (simp add: compare_policies_with_baseline)

lemma undetected_run:
  assumes "\<not> (list_blobs_ok env \<and> download_ok env \<and>
       (\<exists>current. listing env 0 = Response (Some current) \<and>
          sort current \<noteq> sort (read_policy_file content)))"
  shows "chats (trace (snd (compare_policies env (start (Some content))))) = [] \<and>
         tweets (trace (snd (compare_policies env (start (Some content))))) = [] \<and>
         uploads (trace (snd (compare_policies env (start (Some content))))) = [] \<and>
         blob (snd (compare_policies env (start (Some content)))) = Some content \<and>
         fst (compare_policies env (start (Some content))) \<noteq> Inl (SysExit 0)"
  using assms
  by (auto simp: compare_policies_with_baseline split: api_reply.splits option.splits)


lemmas example_defs = abc_listed_def ab_saved_def growing_def only_a_listed_def
  policy_suffix_def chats_def tweets_def uploads_def failed_def

lemma abc_run:
  "fst (compare_policies abc_listed (start (Some ab_saved))) = Inl (SysExit 0) \<and>
   chats (trace (snd (compare_policies abc_listed (start (Some ab_saved))))) =
     [slack_text ''constraints/c''] \<and>
   tweets (trace (snd (compare_policies abc_listed (start (Some ab_saved))))) =
     [''New Organization Policy Detected: c https://git.example/c/1''] \<and>
   blob (snd (compare_policies abc_listed (start (Some ab_saved)))) =
     Some (newline_join [''constraints/a'', ''constraints/b'', ''constraints/c''])"
  by (simp add: run_defs example_defs)

lemma growing_run:
  "fst (compare_policies growing (start (Some ab_saved))) = Inl (SysExit 0) \<and>
   chats (trace (snd (compare_policies growing (start (Some ab_saved))))) =
     [slack_text ''constraints/c''] \<and>
   blob (snd (compare_policies growing (start (Some ab_saved)))) =
     Some (newline_join [''constraints/a'', ''constraints/b'', ''constraints/c'',
                         ''constraints/d''])"
  by (simp add: run_defs example_defs)

lemma only_a_run:
  "fst (compare_policies only_a_listed (start (Some ab_saved))) = Inl (SysExit 0)"
  by (simp add: run_defs example_defs)

lemma nothing_new_saved:
  assumes "github_ok env" "resolves env (s_token_name env)" "resolves env (s_slack_name env)"
    "twitter_secrets_resolve env" "upload_ok env"
    and l1: "\<exists>r. listing env (queries s) = Response r"
    and l2: "\<exists>names. listing env (Suc (queries s)) = Response (Some names)"
  shows "\<not> failed (fst (announce_and_save env [] s))"
proof -
  let ?pr = "create_pr_file_content env s"
  obtain e1 u where s1: "snd ?pr = s\<lparr>queries := Suc (queries s), trace := trace s @ e1\<rparr>"
    and r1: "fst ?pr = Inr u"
    using create_pr_file_content_run [of env s] assms(1,2) l1 by blast
  let ?s1 = "snd ?pr"
  let ?sl = "post_to_slack env [] ?s1"
  have R1: "announce_and_save env [] s = bnd (post_to_slack env []) (\<lambda>_.
                 bnd (post_to_twitter env [] u) (\<lambda>_. upload_policy_file env)) ?s1"
    unfolding announce_and_save_def using r1 by (rule bnd_Inr)
  obtain e2 where s2: "snd ?sl = ?s1\<lparr>trace := trace ?s1 @ e2\<rparr>"
    and r2: "fst ?sl = Inr ()"
    using doesD [OF post_to_slack_does, of env "[]" ?s1] assms(3,4)
    by (auto simp: slack_delivers_def)
  let ?s2 = "snd ?sl"
  let ?tw = "post_to_twitter env [] u ?s2"
  have R2: "announce_and_save env [] s =
      bnd (post_to_twitter env [] u) (\<lambda>_. upload_policy_file env) ?s2"
    unfolding R1 using r2 by (rule bnd_Inr)
  obtain e3 where s3: "snd ?tw = ?s2\<lparr>trace := trace ?s2 @ e3\<rparr>"
    and r3: "fst ?tw = Inr ()"
    using doesD [OF post_to_twitter_does, of env "[]" u ?s2] assms(4) by auto
  let ?s3 = "snd ?tw"
  have R: "announce_and_save env [] s = upload_policy_file env ?s3"
    unfolding R2 using r3 by (rule bnd_Inr)
  have t1: "queries ?s1 = Suc (queries s)" by (simp add: s1)
  have t2: "queries ?s2 = Suc (queries s)" by (simp add: s2 t1)
  have t3: "queries ?s3 = Suc (queries s)" by (simp add: s3 t2)
  have "\<exists>names. listing env (queries ?s3) = Response (Some names)"
    unfolding t3 using l2 .
  then show ?thesis
    unfolding R using upload_policy_file_run [of env ?s3] assms(5) by blast
qed

lemma a_then_ac_run:
  "fst (compare_policies a_then_ac (start (Some ab_saved))) = Inl (SysExit 0) \<and>
   chats (trace (snd (compare_policies a_then_ac (start (Some ab_saved))))) = [] \<and>
   tweets (trace (snd (compare_policies a_then_ac (start (Some ab_saved))))) = [] \<and>
   CreatePull \<in> set (trace (snd (compare_policies a_then_ac (start (Some ab_saved))))) \<and>
   blob (snd (compare_policies a_then_ac (start (Some ab_saved)))) =
     Some (newline_join [''constraints/a'', ''constraints/c''])"
  by (simp add: run_defs example_defs a_then_ac_def)







section \<open>The claims\<close>

text \<open>
  C1. Whenever the sorted lists differ, the names in \<open>new_policies\<close> are exactly those of
  the current listing that are not in the baseline, and the list is the same for any
  other order of the two input sequences.
\<close>

theorem new_policies_are_the_set_difference:
  assumes "sort current \<noteq> sort old"
    and "mset current' = mset current"
    and "mset old' = mset old"
  shows "set (set_difference env (sort current) (sort old)) = set current - set old \<and>
         set_difference env (sort current') (sort old') =
           set_difference env (sort current) (sort old)"
proof -
  have "sort current' = sort current"
    using assms(2) by (simp add: sort_eq_iff_mset)
  moreover have "set (sort old') = set (sort old)"
    using assms(3) by (metis mset_eq_setD set_sort)
  ultimately have "set_difference env (sort current') (sort old') =
      set_difference env (sort current) (sort old)"
    using set_difference_cong [of "sort old'" "sort old" env "sort current"] by simp
  then show ?thesis
    by (simp add: set_set_difference)
qed

theorem new_policies_are_the_set_difference_witness:
  "sort [''A'', ''B'', ''C''] \<noteq> sort [''A'', ''B''] \<and>
   set (set_difference (answering (\<lambda>n. RequestFailed) 200)
          (sort [''A'', ''B'', ''C'']) (sort [''A'', ''B''])) = {''C''} \<and>
   set_difference (answering (\<lambda>n. RequestFailed) 200)
     (sort [''C'', ''A'', ''B'']) (sort [''B'', ''A'']) =
   set_difference (answering (\<lambda>n. RequestFailed) 200)
     (sort [''A'', ''B'', ''C'']) (sort [''A'', ''B''])"
proof -
  have h1: "sort [''A'', ''B'', ''C''] \<noteq> sort [''A'', ''B'']"
    by simp
  have h2: "mset [''C'', ''A'', ''B''] = mset [''A'', ''B'', ''C'']"
    by simp
  have h3: "mset [''B'', ''A''] = mset [''A'', ''B'']"
    by simp
  have "set [''A'', ''B'', ''C''] - set [''A'', ''B''] = {''C''}"
    by auto
  then show ?thesis
    using h1 new_policies_are_the_set_difference [OF h1 h2 h3, of "answering (\<lambda>n. RequestFailed) 200"]
    by simp
qed

text \<open>
  C2, as amended. When the baseline read from the blob and the current listing hold the
  same names the same number of times, in whatever order, the run calls no notifier
  (nothing of the pull request, no chat message, no status update), uploads nothing
  and leaves the blob as it was. Equality as sets is not enough: a name that is
  repeated on one side only makes the sorted lists differ, and then a pull request is
  opened and the baseline is uploaded although no name is new.
\<close>

theorem no_change_no_effect:
  assumes "listing env 0 = Response (Some current)"
    and "mset current = mset (read_policy_file content)"
  shows "list_all (\<lambda>e. \<not> notifier_call e)
           (trace (snd (compare_policies env (start (Some content))))) \<and>
         uploads (trace (snd (compare_policies env (start (Some content))))) = [] \<and>
         blob (snd (compare_policies env (start (Some content)))) = Some content"
proof -
  have "sort current = sort (read_policy_file content)"
    using assms(2) by (simp add: sort_eq_iff_mset)
  then show ?thesis
    using assms(1)
    by (simp add: compare_policies_with_baseline notifier_call_def)
qed

theorem no_change_no_effect_witness:
  "list_all (\<lambda>e. \<not> notifier_call e)
     (trace (snd (compare_policies
        (answering (\<lambda>n. Response (Some [''constraints/b'', ''constraints/a''])) 200)
        (start (Some (newline_join [''constraints/a'', ''constraints/b'']))))))
   \<and> blob (snd (compare_policies
        (answering (\<lambda>n. Response (Some [''constraints/b'', ''constraints/a''])) 200)
        (start (Some (newline_join [''constraints/a'', ''constraints/b'']))))) =
      Some (newline_join [''constraints/a'', ''constraints/b''])"
proof -
  let ?env = "answering (\<lambda>n. Response (Some [''constraints/b'', ''constraints/a''])) 200"
  have h1: "listing ?env 0 = Response (Some [''constraints/b'', ''constraints/a''])"
    by (simp add: answering_def)
  have "read_policy_file (newline_join [''constraints/a'', ''constraints/b'']) =
        [''constraints/a'', ''constraints/b'']"
    by (simp add: read_policy_file_def rstrip_def isspace_def CR_def LF_def)
  then have h2: "mset [''constraints/b'', ''constraints/a''] =
        mset (read_policy_file (newline_join [''constraints/a'', ''constraints/b'']))"
    by simp
  show ?thesis
    using no_change_no_effect [OF h1 h2] by simp
qed

theorem equal_sets_counterexample:
  "set (read_policy_file (newline_join [''constraints/a'', ''constraints/a''])) =
     set [''constraints/a''] \<and>
   CreatePull \<in> set (trace (snd (compare_policies
        (answering (\<lambda>n. Response (Some [''constraints/a''])) 200)
        (start (Some (newline_join [''constraints/a'', ''constraints/a'']))))))
   \<and> uploads (trace (snd (compare_policies
        (answering (\<lambda>n. Response (Some [''constraints/a''])) 200)
        (start (Some (newline_join [''constraints/a'', ''constraints/a'']))))))
      = [''constraints/a'']"
  by (simp add: run_defs)

text \<open>
  C3. When the baseline blob does not exist, the run sends no notification and calls no
  notifier, and uploads at most once; unless it ends in failure, it ends with
  \<open>sys.exit(0)\<close> right after one upload whose content is the current listing, which
  is then the blob.
\<close>

theorem bootstrap_uploads_once:
  "chats (trace (snd (compare_policies env (start None)))) = [] \<and>
   tweets (trace (snd (compare_policies env (start None)))) = [] \<and>
   list_all (\<lambda>e. \<not> notifier_call e) (trace (snd (compare_policies env (start None)))) \<and>
   length (uploads (trace (snd (compare_policies env (start None))))) \<le> 1 \<and>
   (\<not> failed (fst (compare_policies env (start None))) \<longrightarrow>
      fst (compare_policies env (start None)) = Inl (SysExit 0) \<and>
      (\<exists>names. listing env 0 = Response (Some names) \<and>
         trace (snd (compare_policies env (start None))) =
           [ListBlobs, ListConstraints, WriteLocal (newline_join names),
            Upload (newline_join names), Print ''New Policies Uploaded. Exiting.''] \<and>
         blob (snd (compare_policies env (start None))) = Some (newline_join names)))"
  by (simp add: compare_policies_bootstrap notifier_call_def
        split: api_reply.splits option.splits)

theorem bootstrap_uploads_once_witness:
  "\<not> failed (fst (compare_policies abc_listed (start None))) \<and>
   fst (compare_policies abc_listed (start None)) = Inl (SysExit 0) \<and>
   uploads (trace (snd (compare_policies abc_listed (start None)))) =
     [newline_join [''constraints/a'', ''constraints/b'', ''constraints/c'']] \<and>
   blob (snd (compare_policies abc_listed (start None))) =
     Some (newline_join [''constraints/a'', ''constraints/b'', ''constraints/c''])"
proof -
  have h: "\<not> failed (fst (compare_policies abc_listed (start None)))"
    by (simp add: run_defs example_defs)
  have l: "listing abc_listed 0 =
      Response (Some [''constraints/a'', ''constraints/b'', ''constraints/c''])"
    by (simp add: abc_listed_def answering_def)
  show ?thesis
    using h l bootstrap_uploads_once [of abc_listed] by auto
qed

text \<open>
  C5, as amended. For names that are not empty, hold no line break and do not end in
  white space, reading back the file written for a list gives that list, and the same
  set of names whatever the order of the lines. A name ending in white space comes
  back without it.
\<close>

theorem baseline_round_trip:
  assumes "list_all plain_name names"
    and "mset names' = mset names"
  shows "read_policy_file (newline_join names) = names \<and>
         set (read_policy_file (newline_join names')) = set names"
proof -
  have "set names' = set names"
    using assms(2) by (rule mset_eq_setD)
  then have "list_all plain_name names'"
    using assms(1) by (simp add: list_all_iff)
  then have "read_policy_file (newline_join names') = names'"
    by (rule read_policy_file_join)
  with \<open>set names' = set names\<close> read_policy_file_join [OF assms(1)] show ?thesis
    by simp
qed

theorem baseline_round_trip_witness:
  "read_policy_file (newline_join [''constraints/b'', ''constraints/a'']) =
     [''constraints/b'', ''constraints/a''] \<and>
   set (read_policy_file (newline_join [''constraints/a'', ''constraints/b''])) =
     set [''constraints/b'', ''constraints/a'']"
proof -
  have h1: "list_all plain_name [''constraints/b'', ''constraints/a'']"
    by (simp add: plain_name_def isspace_def CR_def LF_def)
  have h2: "mset [''constraints/a'', ''constraints/b''] = mset [''constraints/b'', ''constraints/a'']"
    by simp
  show ?thesis
    using baseline_round_trip [OF h1 h2] by simp
qed

theorem baseline_round_trip_counterexample:
  "set (read_policy_file (newline_join [''constraints/a ''])) \<noteq> set [''constraints/a '']"
  by (simp add: read_policy_file_def rstrip_def isspace_def CR_def LF_def)

text \<open>
  C4, as amended. In a run that found a difference and did not end in failure, the
  baseline that is saved is the listing returned by a new query of the policy source
  made by the upload (the third query of the run): it is the list used for the
  comparison whenever that query is answered like the first one, and it can differ
  from it otherwise.
\<close>

theorem saved_baseline_is_a_fresh_listing:
  assumes "listing env 0 = Response (Some current)"
    and "sort current \<noteq> sort (read_policy_file content)"
    and "\<not> failed (fst (compare_policies env (start (Some content))))"
  shows "\<exists>names. listing env 2 = Response (Some names) \<and>
           blob (snd (compare_policies env (start (Some content)))) = Some (newline_join names) \<and>
           uploads (trace (snd (compare_policies env (start (Some content))))) =
             [newline_join names] \<and>
           (listing env 2 = listing env 0 \<longrightarrow> names = current)"
proof -
  let ?R = "compare_policies env (start (Some content))"
  let ?new = "set_difference env (sort current) (sort (read_policy_file content))"
  let ?s1 = "\<lparr>blob = Some content, queries = 1,
        trace = [ListBlobs, Download, Print ''Org Policy File Downloaded from GCS Bucket'',
                 ListConstraints, Print ''New Org Policies Detected!'']\<rparr>"
  have ok: "list_blobs_ok env" "download_ok env"
    using assms(3) by (auto simp: compare_policies_with_baseline split: if_splits)
  have R: "?R = announce_and_save env ?new ?s1"
    using ok assms(1,2) by (rule detected_run)
  obtain A B where "trace (snd ?R) = trace ?s1 @ A @ B"
    and "\<not> failed (fst ?R) \<longrightarrow>
        (\<exists>names. listing env (Suc (queries ?s1)) = Response (Some names) \<and>
           blob (snd ?R) = Some (newline_join names) \<and>
           uploads (A @ B) = [newline_join names])"
    using announce_and_save_run [of env ?new ?s1] unfolding R by blast
  with assms(3) obtain names where n: "listing env (Suc (queries ?s1)) = Response (Some names)"
    "blob (snd ?R) = Some (newline_join names)"
    "uploads (trace (snd ?R)) = [newline_join names]"
    by auto
  have two: "Suc (queries ?s1) = 2" by simp
  have "listing env 2 = Response (Some names)"
    using n(1) unfolding two .
  with n(2,3) assms(1) show ?thesis by auto
qed

theorem saved_baseline_is_a_fresh_listing_witness:
  "listing abc_listed 0 = Response (Some [''constraints/a'', ''constraints/b'', ''constraints/c'']) \<and>
   sort [''constraints/a'', ''constraints/b'', ''constraints/c''] \<noteq> sort (read_policy_file ab_saved) \<and>
   \<not> failed (fst (compare_policies abc_listed (start (Some ab_saved)))) \<and>
   listing abc_listed 2 = listing abc_listed 0 \<and>
   (\<exists>names. listing abc_listed 2 = Response (Some names) \<and>
      blob (snd (compare_policies abc_listed (start (Some ab_saved)))) =
        Some (newline_join names) \<and>
      uploads (trace (snd (compare_policies abc_listed (start (Some ab_saved))))) =
        [newline_join names] \<and>
      (listing abc_listed 2 = listing abc_listed 0 \<longrightarrow>
         names = [''constraints/a'', ''constraints/b'', ''constraints/c'']))"
proof -
  have h1: "listing abc_listed 0 =
      Response (Some [''constraints/a'', ''constraints/b'', ''constraints/c''])"
    by (simp add: abc_listed_def answering_def)
  have h2: "sort [''constraints/a'', ''constraints/b'', ''constraints/c''] \<noteq>
      sort (read_policy_file ab_saved)"
    by (simp add: run_defs example_defs)
  have h3: "\<not> failed (fst (compare_policies abc_listed (start (Some ab_saved))))"
    by (simp add: abc_run)
  have h4: "listing abc_listed 2 = listing abc_listed 0"
    by (simp add: abc_listed_def answering_def)
  show ?thesis
    using h1 h2 h3 h4 saved_baseline_is_a_fresh_listing [OF h1 h2 h3] by blast
qed

theorem saved_baseline_counterexample:
  "listing growing 0 = Response (Some [''constraints/a'', ''constraints/b'', ''constraints/c'']) \<and>
   fst (compare_policies growing (start (Some ab_saved))) = Inl (SysExit 0) \<and>
   chats (trace (snd (compare_policies growing (start (Some ab_saved))))) =
     [slack_text ''constraints/c''] \<and>
   blob (snd (compare_policies growing (start (Some ab_saved)))) =
     Some (newline_join [''constraints/a'', ''constraints/b'', ''constraints/c'',
                         ''constraints/d'']) \<and>
   ''constraints/d'' \<in> set (read_policy_file (newline_join [''constraints/a'',
          ''constraints/b'', ''constraints/c'', ''constraints/d''])) \<and>
   ''constraints/d'' \<notin> set [''constraints/a'', ''constraints/b'', ''constraints/c'']"
  by (simp add: run_defs example_defs)

text \<open>
  C7, as amended. When the names of the current listing are a proper part of the
  baseline, no chat message and no status update is sent. A run that does not end in
  failure ends with \<open>sys.exit(0)\<close> after one upload, and what it uploads, and so the
  blob afterwards, is the listing returned by a new query of the policy source (the
  third of the run): the current listing whenever that query is answered like the
  first, another list otherwise. Such a run exists whenever every service answers.
\<close>

theorem removal_goes_unreported:
  assumes "set current \<subset> set (read_policy_file content)"
    and "listing env 0 = Response (Some current)"
  shows "chats (trace (snd (compare_policies env (start (Some content))))) = [] \<and>
         tweets (trace (snd (compare_policies env (start (Some content))))) = [] \<and>
         (\<not> failed (fst (compare_policies env (start (Some content)))) \<longrightarrow>
            fst (compare_policies env (start (Some content))) = Inl (SysExit 0) \<and>
            (\<exists>names. listing env 2 = Response (Some names) \<and>
               uploads (trace (snd (compare_policies env (start (Some content))))) =
                 [newline_join names] \<and>
               blob (snd (compare_policies env (start (Some content)))) =
                 Some (newline_join names) \<and>
               (listing env 2 = listing env 0 \<longrightarrow> names = current))) \<and>
         (services_answer env \<and> (\<exists>r. listing env 1 = Response r) \<and>
          (\<exists>names. listing env 2 = Response (Some names)) \<longrightarrow>
            \<not> failed (fst (compare_policies env (start (Some content)))))"
proof (cases "list_blobs_ok env \<and> download_ok env")
  case False
  then have "\<not> (list_blobs_ok env \<and> download_ok env \<and>
       (\<exists>current. listing env 0 = Response (Some current) \<and>
          sort current \<noteq> sort (read_policy_file content)))"
    by blast
  from undetected_run [OF this] False show ?thesis
    by (auto simp: compare_policies_with_baseline services_answer_def)
next
  case True
  let ?R = "compare_policies env (start (Some content))"
  let ?new = "set_difference env (sort current) (sort (read_policy_file content))"
  let ?s1 = "\<lparr>blob = Some content, queries = 1,
        trace = [ListBlobs, Download, Print ''Org Policy File Downloaded from GCS Bucket'',
                 ListConstraints, Print ''New Org Policies Detected!'']\<rparr>"
  have "set (sort current) \<noteq> set (sort (read_policy_file content))"
    using assms(1) by auto
  then have ne: "sort current \<noteq> sort (read_policy_file content)"
    by metis
  have R: "?R = announce_and_save env ?new ?s1"
    using True assms(2) ne by (intro detected_run) simp_all
  have "set ?new = {}"
    using assms(1) by (auto simp: set_set_difference)
  then have new: "?new = []" by simp
  obtain A B k j where t: "trace (snd ?R) = trace ?s1 @ A @ B"
    and a: "chats A = []" "tweets A = []"
    and o: "B = [] \<or> (A \<noteq> [] \<and> last A = CreatePull \<and> update_file env \<noteq> None)"
    and cb: "chats B = map slack_text (take k ?new)"
    and tb: "\<forall>u. update_file env = Some u \<longrightarrow> tweets B = map (tweet_text u) (take j ?new)"
    and r: "\<forall>v. fst ?R \<noteq> Inr v"
    and f: "\<not> failed (fst ?R) \<longrightarrow>
        (\<exists>names. listing env (Suc (queries ?s1)) = Response (Some names) \<and>
           blob (snd ?R) = Some (newline_join names) \<and>
           uploads (A @ B) = [newline_join names])"
    using announce_and_save_run [of env ?new ?s1] unfolding R by blast
  have "tweets B = []"
    using o tb new by auto
  then have quiet: "chats (trace (snd ?R)) = []" "tweets (trace (snd ?R)) = []"
    using t a cb new by simp_all
  have one: "queries ?s1 = 1" by simp
  have two: "Suc (queries ?s1) = 2" by simp
  have "uploads (trace (snd ?R)) = uploads (A @ B)"
    using t by simp
  with f have "\<not> failed (fst ?R) \<longrightarrow>
        (\<exists>names. listing env 2 = Response (Some names) \<and>
           blob (snd ?R) = Some (newline_join names) \<and>
           uploads (trace (snd ?R)) = [newline_join names])"
    unfolding two by simp
  then have saved: "\<not> failed (fst ?R) \<longrightarrow>
        (\<exists>names. listing env 2 = Response (Some names) \<and>
           uploads (trace (snd ?R)) = [newline_join names] \<and>
           blob (snd ?R) = Some (newline_join names) \<and>
           (listing env 2 = listing env 0 \<longrightarrow> names = current))"
    using assms(2) by auto
  have reached: "\<not> failed (fst ?R)"
    if ok: "services_answer env" and l1: "\<exists>r. listing env 1 = Response r"
      and l2: "\<exists>names. listing env 2 = Response (Some names)"
  proof -
    have "\<exists>r. listing env (queries ?s1) = Response r"
      unfolding one using l1 .
    moreover have "\<exists>names. listing env (Suc (queries ?s1)) = Response (Some names)"
      unfolding two using l2 .
    ultimately have "\<not> failed (fst (announce_and_save env [] ?s1))"
      using ok by (intro nothing_new_saved) (simp_all add: services_answer_def)
    then show ?thesis
      unfolding R new .
  qed
  show ?thesis
    using quiet saved r not_failed_exit0 [of "fst ?R"] reached by auto
qed

theorem removal_goes_unreported_witness:
  "set [''constraints/a''] \<subset> set (read_policy_file ab_saved) \<and>
   listing only_a_listed 0 = Response (Some [''constraints/a'']) \<and>
   services_answer only_a_listed \<and>
   listing only_a_listed 2 = listing only_a_listed 0 \<and>
   \<not> failed (fst (compare_policies only_a_listed (start (Some ab_saved)))) \<and>
   chats (trace (snd (compare_policies only_a_listed (start (Some ab_saved))))) = [] \<and>
   tweets (trace (snd (compare_policies only_a_listed (start (Some ab_saved))))) = [] \<and>
   fst (compare_policies only_a_listed (start (Some ab_saved))) = Inl (SysExit 0) \<and>
   blob (snd (compare_policies only_a_listed (start (Some ab_saved)))) =
     Some (newline_join [''constraints/a''])"
proof -
  have r: "read_policy_file ab_saved = [''constraints/a'', ''constraints/b'']"
    by (simp add: run_defs example_defs)
  have h1: "set [''constraints/a''] \<subset> set (read_policy_file ab_saved)"
    unfolding r by auto
  have h2: "listing only_a_listed 0 = Response (Some [''constraints/a''])"
    by (simp add: only_a_listed_def answering_def)
  have h3: "services_answer only_a_listed"
    by (simp add: services_answer_def github_ok_def resolves_def twitter_secrets_resolve_def
          only_a_listed_def answering_def)
  have h4: "\<exists>r. listing only_a_listed 1 = Response r"
    by (simp add: only_a_listed_def answering_def)
  have h5: "listing only_a_listed 2 = Response (Some [''constraints/a''])"
    by (simp add: only_a_listed_def answering_def)
  have h6: "listing only_a_listed 2 = listing only_a_listed 0"
    by (simp add: only_a_listed_def answering_def)
  have nf: "\<not> failed (fst (compare_policies only_a_listed (start (Some ab_saved))))"
    using removal_goes_unreported [OF h1 h2] h3 h4 h5 by blast
  show ?thesis
    using h1 h2 h3 h5 h6 nf removal_goes_unreported [OF h1 h2] by auto
qed

theorem removal_counterexample:
  "set [''constraints/a''] \<subset> set [''constraints/a'', ''constraints/b''] \<and>
   read_policy_file ab_saved = [''constraints/a'', ''constraints/b''] \<and>
   listing a_then_ac 0 = Response (Some [''constraints/a'']) \<and>
   fst (compare_policies a_then_ac (start (Some ab_saved))) = Inl (SysExit 0) \<and>
   blob (snd (compare_policies a_then_ac (start (Some ab_saved)))) =
     Some (newline_join [''constraints/a'', ''constraints/c'']) \<and>
   read_policy_file (newline_join [''constraints/a'', ''constraints/c'']) =
     [''constraints/a'', ''constraints/c''] \<and>
   ''constraints/c'' \<notin> set [''constraints/a'']"
proof -
  have "set [''constraints/a''] \<subset> set [''constraints/a'', ''constraints/b'']"
    by auto
  moreover have "read_policy_file ab_saved = [''constraints/a'', ''constraints/b'']"
    "listing a_then_ac 0 = Response (Some [''constraints/a''])"
    "read_policy_file (newline_join [''constraints/a'', ''constraints/c'']) =
       [''constraints/a'', ''constraints/c'']"
    "''constraints/c'' \<notin> set [''constraints/a'']"
    by (simp_all add: run_defs example_defs a_then_ac_def)
  ultimately show ?thesis
    using a_then_ac_run by simp
qed









end
